theory Spec2Isabelle
  imports Main
begin

section \<open>The index of pull requests by file (getPrsByFile, lines 90-101)\<close>

text \<open>
  The GraphQL answer is a list of pull-request nodes, newest first; each node carries
  its \<open>number\<close> and the \<open>path\<close> of each of its file nodes.
\<close>

record pullRequest =
  number :: int
  files :: "string list"

datatype error = TypeError | ProducerFailure

text \<open>
  \<open>files\<close> in the source is a plain object literal \<open>{}\<close>: its own properties are the
  keys the loop has created, and a read of a key that is not an own property falls
  through to \<open>Object.prototype\<close>. The own properties are a map from path to the
  array stored there; the inherited members are the functions listed below (each has
  a \<open>length\<close> of at most 2) and the accessor \<open>__proto__\<close>.
\<close>

type_synonym index = "string \<rightharpoonup> int list"

datatype jsvalue = Undefined | NumberArray "int list" | Function | ObjectPrototype

definition Object_prototype_methods :: "string list" where
  "Object_prototype_methods =
     [''constructor'', ''__defineGetter__'', ''__defineSetter__'', ''hasOwnProperty'',
      ''__lookupGetter__'', ''__lookupSetter__'', ''isPrototypeOf'',
      ''propertyIsEnumerable'', ''toString'', ''valueOf'', ''toLocaleString'']"

definition get_property :: "index \<Rightarrow> string \<Rightarrow> jsvalue" where
  "get_property obj key =
     (case obj key of
        Some xs \<Rightarrow> NumberArray xs
      | None \<Rightarrow>
          (if key = ''__proto__'' then ObjectPrototype
           else if key \<in> set Object_prototype_methods then Function
           else Undefined))"

text \<open>
  The body of the inner loop, for one path of the pull request \<open>n\<close>:
  \<^verbatim>\<open>files[path] = files[path] ?? []; if (files[path].length < 10) files[path].push(pr.number)\<close>.
  \<^item> no such property: the empty array is stored, its length is 0, the number is pushed;
  \<^item> an array: the number is pushed when fewer than 10 are stored, dropped otherwise;
  \<^item> an inherited function: it is not nullish, so it is stored back; its \<open>length\<close> is
    below 10 and it has no \<open>push\<close>, so the call throws a TypeError;
  \<^item> \<open>__proto__\<close>: the accessor yields \<open>Object.prototype\<close>, assigning it back changes
    nothing, its \<open>length\<close> is undefined and \<open>undefined < 10\<close> is false: nothing is pushed.
\<close>

definition push_pr :: "int \<Rightarrow> string \<Rightarrow> index \<Rightarrow> error + index" where
  "push_pr n path idx =
     (case get_property idx path of
        Undefined \<Rightarrow> Inr (idx(path \<mapsto> [] @ [n]))
      | NumberArray xs \<Rightarrow> Inr (if length xs < 10 then idx(path \<mapsto> xs @ [n]) else idx)
      | Function \<Rightarrow> Inl TypeError
      | ObjectPrototype \<Rightarrow> Inr idx)"

text \<open>\<^verbatim>\<open>for (const {path} of pr.files.nodes)\<close>\<close>

fun files_loop :: "int \<Rightarrow> string list \<Rightarrow> index \<Rightarrow> error + index" where
  "files_loop n [] idx = Inr idx"
| "files_loop n (path # paths) idx =
     (case push_pr n path idx of
        Inl e \<Rightarrow> Inl e
      | Inr idx' \<Rightarrow> files_loop n paths idx')"

text \<open>\<^verbatim>\<open>for (const pr of repository.pullRequests.nodes)\<close>\<close>

fun prs_loop :: "pullRequest list \<Rightarrow> index \<Rightarrow> error + index" where
  "prs_loop [] idx = Inr idx"
| "prs_loop (pr # prs) idx =
     (case files_loop (number pr) (files pr) idx of
        Inl e \<Rightarrow> Inl e
      | Inr idx' \<Rightarrow> prs_loop prs idx')"

text \<open>\<^verbatim>\<open>const files = {}; for ... ; return files\<close>\<close>

definition buildIndex :: "pullRequest list \<Rightarrow> error + index" where
  "buildIndex nodes = prs_loop nodes Map.empty"

text \<open>
  The asynchronous producer passed to \<open>cache.function\<close>: it awaits the API answer
  (which may reject) and then builds the index.
\<close>

definition producer :: "error + pullRequest list \<Rightarrow> error + index" where
  "producer answer = (case answer of Inl e \<Rightarrow> Inl e | Inr nodes \<Rightarrow> buildIndex nodes)"

text \<open>
  The contribution sequence of a key, in the words of the specification: the numbers of
  the records in processing order, one for each time the record lists the key.
\<close>

definition contributions :: "pullRequest list \<Rightarrow> string \<Rightarrow> int list" where
  "contributions nodes key =
     concat (map (\<lambda>pr. map (\<lambda>_. number pr) (filter (\<lambda>path. path = key) (files pr))) nodes)"

text \<open>The array an object holds at a key, empty when the key is not an own property.\<close>

definition stored :: "index \<Rightarrow> string \<Rightarrow> int list" where
  "stored idx key = (case idx key of None \<Rightarrow> [] | Some xs \<Rightarrow> xs)"

section \<open>Markup and the document\<close>

text \<open>
  Elements built by the JSX expressions: tag, attributes and children. A number placed
  in the markup is kept as a number. \<open>PageElement h\<close> is an element of the page
  itself, known by its handle.
\<close>

datatype node =
    Element string "(string \<times> string) list" "node list"
  | Icon string "(string \<times> string) list"
  | Text string
  | NumberText int
  | PageElement nat

text \<open>
  What the feature takes from its collaborators, which are not part of this file:
  \<open>buildRepoURL\<close> of the GitHub helpers, \<open>isChrome\<close> of webext-detect-page, and
  JavaScript's \<open>Number\<close> on a string, as far as it matters to a comparison with an
  integer: \<open>None\<close> for \<open>NaN\<close> and for every value that is not an integer.
\<close>

datatype urlPart = Str string | Num int

record host =
  buildRepoURL :: "urlPart list \<Rightarrow> string"
  isChrome :: bool
  Number :: "string \<Rightarrow> int option"

text \<open>
  The page's location: \<open>filePath\<close> is \<^verbatim>\<open>new GitHubURL(location.href).filePath\<close>,
  \<open>search\<close> the decoded name/value pairs of \<^verbatim>\<open>location.search\<close>.
\<close>

record location =
  filePath :: string
  search :: "(string \<times> string) list"

definition getPRUrl :: "host \<Rightarrow> int \<Rightarrow> string" where
  "getPRUrl h prNumber = buildRepoURL h [Str ''pull'', Num prNumber, Str ''files'']"

definition getHovercardUrl :: "host \<Rightarrow> int \<Rightarrow> string" where
  "getHovercardUrl h prNumber = buildRepoURL h [Str ''pull'', Num prNumber, Str ''hovercard'']"

definition getDropdown :: "host \<Rightarrow> int list \<Rightarrow> node" where
  "getDropdown h prs =
     Element ''details'' [(''class'', ''dropdown details-reset details-overlay flex-self-center'')]
       [Element ''summary'' [(''class'', ''btn btn-sm'')]
          [Icon ''GitPullRequestIcon'' [(''class'', ''v-align-middle'')],
           Element ''span'' [(''class'', ''v-align-middle'')]
             [Text '' '', NumberText (int (length prs)), Text '' ''],
           Element ''div'' [(''class'', ''dropdown-caret'')] []],
        Element ''details-menu'' [(''class'', ''dropdown-menu dropdown-menu-sw'')]
          (Element ''div'' [(''class'', ''dropdown-header'')] [Text ''File touched by PRs'']
           # map (\<lambda>prNumber.
                 Element ''a''
                   [(''class'', ''dropdown-item''),
                    (''href'', getPRUrl h prNumber),
                    (''data-hovercard-url'', getHovercardUrl h prNumber)]
                   [Text ''#'', NumberText prNumber]) prs)]"

definition getSingleButton :: "host \<Rightarrow> int \<Rightarrow> node" where
  "getSingleButton h prNumber =
     Element ''a''
       [(''href'', getPRUrl h prNumber),
        (''class'', ''btn btn-sm flex-self-center''),
        (''data-hovercard-url'', getHovercardUrl h prNumber)]
       [Icon ''GitPullRequestIcon'' [(''class'', ''v-align-middle'')],
        Element ''span'' [(''class'', ''v-align-middle'')] [Text '' #'', NumberText prNumber]]"

text \<open>
  \<^verbatim>\<open>anchor.before(new)\<close> and \<^verbatim>\<open>anchor.after(new)\<close> on the children of the anchor's
  parent. An anchor that is not among them has no parent there, and nothing is inserted.
\<close>

fun before :: "nat \<Rightarrow> node \<Rightarrow> node list \<Rightarrow> node list" where
  "before anchor new [] = []"
| "before anchor new (x # xs) =
     (if x = PageElement anchor then new # x # xs else x # before anchor new xs)"

fun after :: "nat \<Rightarrow> node \<Rightarrow> node list \<Rightarrow> node list" where
  "after anchor new [] = []"
| "after anchor new (x # xs) =
     (if x = PageElement anchor then x # new # xs else x # after anchor new xs)"

text \<open>
  An asynchronous function that changes the document settles with the document it
  leaves behind: \<open>None\<close> when it is fulfilled, the error when it is rejected.
\<close>

type_synonym settled_dom = "error option \<times> node list"

definition addToSingleFile ::
  "host \<Rightarrow> location \<Rightarrow> error + index \<Rightarrow> nat \<Rightarrow> node list \<Rightarrow> settled_dom" where
  "addToSingleFile h loc fetched moreFileActionsDropdown doc =
     (let path = filePath loc in
      case fetched of
        Inl e \<Rightarrow> (Some e, doc)
      | Inr prsByFile \<Rightarrow>
          (case get_property prsByFile path of
             Undefined \<Rightarrow> (None, doc)
           | Function \<Rightarrow> (Some TypeError, doc)
           | ObjectPrototype \<Rightarrow> (Some TypeError, doc)
           | NumberArray prs \<Rightarrow>
               (let button = (case prs of
                                [prNumber] \<Rightarrow> getSingleButton h prNumber
                              | _ \<Rightarrow> getDropdown h prs)
                in (None, before moreFileActionsDropdown button doc))))"

text \<open>
  \<^verbatim>\<open>String.prototype.split\<close> on a one-character separator (the result is never
  empty), \<^verbatim>\<open>slice(-1)\<close>, and the conversion of an array of strings to a string, which
  \<open>Number\<close> applies to its argument first.
\<close>

fun split :: "char \<Rightarrow> string \<Rightarrow> string list" where
  "split sep [] = [[]]"
| "split sep (c # cs) =
     (if c = sep then [] # split sep cs
      else case split sep cs of
             [] \<Rightarrow> [[c]]
           | w # ws \<Rightarrow> (c # w) # ws)"

definition slice_last :: "'a list \<Rightarrow> 'a list" where
  "slice_last xs = drop (length xs - 1) xs"

fun Array_toString :: "string list \<Rightarrow> string" where
  "Array_toString [] = []"
| "Array_toString [x] = x"
| "Array_toString (x # y # ys) = x @ '','' @ Array_toString (y # ys)"

text \<open>
  \<^verbatim>\<open>new URLSearchParams(location.search).get('pr')?.split('/').slice(-1)\<close>: undefined
  when there is no \<open>pr\<close> parameter, otherwise an array, which is always truthy.
\<close>

definition editingPRNumber :: "location \<Rightarrow> string list option" where
  "editingPRNumber loc =
     (case map_of (search loc) ''pr'' of
        None \<Rightarrow> None
      | Some v \<Rightarrow> Some (slice_last (split CHR ''/'' v)))"

text \<open>
  \<^verbatim>\<open>button.classList.add(name)\<close>: the tokens of the \<open>class\<close> attribute are its
  pieces between ASCII whitespace, each kept once in the order of first appearance;
  \<open>name\<close> is appended unless it is among them, and the attribute is set to the tokens
  joined by single spaces.
\<close>

definition ascii_whitespace :: "char \<Rightarrow> bool" where
  "ascii_whitespace c = ((of_char c :: nat) \<in> {9, 10, 12, 13, 32})"

fun split_tokens :: "string \<Rightarrow> string \<Rightarrow> string list" where
  "split_tokens cur [] = (if cur = [] then [] else [cur])"
| "split_tokens cur (c # cs) =
     (if ascii_whitespace c
      then (if cur = [] then split_tokens [] cs else cur # split_tokens [] cs)
      else split_tokens (cur @ [c]) cs)"

definition ordered_set :: "'a list \<Rightarrow> 'a list" where
  "ordered_set xs = rev (remdups (rev xs))"

fun serialize_tokens :: "string list \<Rightarrow> string" where
  "serialize_tokens [] = []"
| "serialize_tokens [t] = t"
| "serialize_tokens (t # u # us) = t @ '' '' @ serialize_tokens (u # us)"

definition add_token :: "string \<Rightarrow> string \<Rightarrow> string" where
  "add_token name v = serialize_tokens (ordered_set (split_tokens [] v @ [name]))"

fun classList_add :: "string \<Rightarrow> node \<Rightarrow> node" where
  "classList_add name (Element tag attrs children) =
     Element tag
       (if ''class'' \<in> fst ` set attrs
        then map (\<lambda>(k, v). if k = ''class'' then (k, add_token name v) else (k, v)) attrs
        else attrs @ [(''class'', name)])
       children"
| "classList_add name n = n"

text \<open>
  \<^verbatim>\<open>button.hash = value\<close> on a link rewrites the fragment of its \<open>href\<close>, as the URL
  standard describes it: one leading \<open>#\<close> of the value is dropped, ASCII tabs and
  newlines are removed, every byte of the fragment percent-encode set (controls, space,
  \<open>"\<close>, \<open><\<close>, \<open>>\<close>, the backquote and everything from 0x7F on) is written as \<open>%XX\<close>,
  and the result replaces what follows the first \<open>#\<close> of the \<open>href\<close>; the empty value
  removes the fragment. The \<open>href\<close> is an absolute URL in serialised form, which is what
  \<open>buildRepoURL\<close> returns. An element without \<open>href\<close> has no URL and is left as it is.
\<close>

definition hex_digit :: "nat \<Rightarrow> char" where
  "hex_digit n = (if n < 10 then char_of (48 + n) else char_of (55 + n))"

definition percent_encode :: "char \<Rightarrow> string" where
  "percent_encode c =
     (let code = (of_char c :: nat)
      in [CHR ''%'', hex_digit (code div 16), hex_digit (code mod 16)])"

definition fragment_encode_set :: "char \<Rightarrow> bool" where
  "fragment_encode_set c =
     (let code = (of_char c :: nat)
      in code \<le> 32 \<or> code = 34 \<or> code = 60 \<or> code = 62 \<or> code = 96 \<or> 127 \<le> code)"

definition tab_or_newline :: "char \<Rightarrow> bool" where
  "tab_or_newline c = ((of_char c :: nat) \<in> {9, 10, 13})"

definition fragment_of :: "string \<Rightarrow> string" where
  "fragment_of v =
     (let input = (case v of [] \<Rightarrow> [] | c # cs \<Rightarrow> if c = CHR ''#'' then cs else v)
      in concat (map (\<lambda>c. if fragment_encode_set c then percent_encode c else [c])
                   (filter (\<lambda>c. \<not> tab_or_newline c) input)))"

definition with_hash :: "string \<Rightarrow> string \<Rightarrow> string" where
  "with_hash v href =
     takeWhile (\<lambda>c. c \<noteq> CHR ''#'') href @ (if v = [] then [] else ''#'' @ fragment_of v)"

fun set_hash :: "string \<Rightarrow> node \<Rightarrow> node" where
  "set_hash v (Element tag attrs children) =
     Element tag (map (\<lambda>(k, u). if k = ''href'' then (k, with_hash v u) else (k, u)) attrs) children"
| "set_hash v n = n"

definition groupButton :: "host \<Rightarrow> string \<Rightarrow> int \<Rightarrow> node" where
  "groupButton h path pr =
     (let button = classList_add ''BtnGroup-item'' (getSingleButton h pr)
      in if isChrome h then set_hash ('':~:text='' @ path) button else button)"

definition warning :: "host \<Rightarrow> string \<Rightarrow> int list \<Rightarrow> node" where
  "warning h path prs =
     Element ''div'' [(''class'', ''form-warning p-3 mb-3 mx-lg-3'')]
       (case prs of
          [prNumber] \<Rightarrow>
            [Text ''Careful, PR '',
             Element ''a'' [(''href'', getPRUrl h prNumber)] [Text ''#'', NumberText prNumber],
             Text '' is already touching this file'']
        | _ \<Rightarrow>
            [Text ''Careful, '', NumberText (int (length prs)),
             Text '' open PRs are already touching this file'',
             Element ''span'' [(''class'', ''ml-2 BtnGroup'')] (map (groupButton h path) prs)])"

definition addToEditingFile ::
  "host \<Rightarrow> location \<Rightarrow> error + index \<Rightarrow> nat \<Rightarrow> node list \<Rightarrow> settled_dom" where
  "addToEditingFile h loc fetched file doc =
     (let path = filePath loc in
      case fetched of
        Inl e \<Rightarrow> (Some e, doc)
      | Inr prsByFile \<Rightarrow>
          (case get_property prsByFile path of
             Undefined \<Rightarrow> (None, doc)
           | Function \<Rightarrow> (Some TypeError, doc)
           | ObjectPrototype \<Rightarrow> (Some TypeError, doc)
           | NumberArray prs0 \<Rightarrow>
               (case editingPRNumber loc of
                  Some editing \<Rightarrow>
                    (let prs = filter (\<lambda>pr. Some pr \<noteq> Number h (Array_toString editing)) prs0
                     in if length prs = 0 then (None, doc)
                        else (None, after file (warning h path prs) doc))
                | None \<Rightarrow> (None, after file (warning h path prs0) doc))))"

text \<open>
  A stand-in for \<open>Number\<close> in concrete hosts. It gives what \<open>Number\<close> gives on the
  empty string (0) and on the strings of at most 15 decimal digits, whose values a
  double holds exactly. On every other string it answers \<open>None\<close>, which is not always
  what \<open>Number\<close> does (\<open>3.0\<close>, \<open>0x10\<close> and \<open>1e1\<close> are integers for it): it is applied
  to strings of digits only.
\<close>

definition digit_value :: "char \<Rightarrow> int option" where
  "digit_value c =
     (let code = (of_char c :: nat)
      in if 48 \<le> code \<and> code \<le> 57 then Some (int code - 48) else None)"

fun decimal :: "int \<Rightarrow> string \<Rightarrow> int option" where
  "decimal acc [] = Some acc"
| "decimal acc (c # cs) =
     (case digit_value c of None \<Rightarrow> None | Some d \<Rightarrow> decimal (10 * acc + d) cs)"

definition Number_of_digits :: "string \<Rightarrow> int option" where
  "Number_of_digits s = (if length s \<le> 15 then decimal 0 s else None)"

section \<open>The cache around the producer\<close>

text \<open>
  Modelled from the spec: \<open>cache.function\<close> of the package webext-storage-cache and
  \<open>cacheByRepo\<close> of the GitHub helpers are not among the source files; the source only
  calls them, with \<open>maxAge\<close> of 2 hours, \<open>staleWhileRevalidate\<close> of 9 days and
  \<open>cacheByRepo\<close> as the key. The definitions below follow the CacheStore of the
  specification: an entry per scope key, holding the value, the time it was stored and
  the key.
\<close>

record 'v CacheEntry =
  entryValue :: 'v
  storedAt :: nat
  scopeKey :: string

type_synonym 'v CacheStore = "string \<rightharpoonup> 'v CacheEntry"

record policy =
  maxAge :: nat
  staleWhileRevalidate :: nat

datatype 'v settled = Resolved 'v | Rejected error

text \<open>
  Modelled from the spec: a resolved value is persisted with its timestamp and its scope
  key; the new entry replaces the previous one of that key.
\<close>

definition persist :: "string \<Rightarrow> 'v \<Rightarrow> nat \<Rightarrow> 'v CacheStore \<Rightarrow> 'v CacheStore" where
  "persist scope v now store =
     store(scope \<mapsto> \<lparr>entryValue = v, storedAt = now, scopeKey = scope\<rparr>)"

text \<open>Modelled from the spec: an invalidation by the caller deletes the entry of the key.\<close>

definition invalidate :: "string \<Rightarrow> 'v CacheStore \<Rightarrow> 'v CacheStore" where
  "invalidate scope store = store(scope := None)"

text \<open>
  Modelled from the spec: \<open>get(scopeKey, producer, policy)\<close> at the time \<open>now\<close>, one
  call at a time. \<open>produced\<close> is what the producer settles with if it is called.
  \<^item> No entry: the producer is awaited; its value is persisted and returned, its failure
    rejects the call.
  \<^item> An entry no older than \<open>maxAge\<close>: its value is returned.
  \<^item> An entry within the further \<open>staleWhileRevalidate\<close> window: its value is returned
    at once, and the refresh behind it replaces the entry or fails silently.
  \<^item> An older entry: the producer is awaited; its value replaces the entry and is
    returned; on its failure the previous value is returned and the entry is deleted.
\<close>

definition get ::
  "string \<Rightarrow> error + 'v \<Rightarrow> policy \<Rightarrow> nat \<Rightarrow> 'v CacheStore \<Rightarrow> 'v settled \<times> 'v CacheStore" where
  "get scope produced pol now store =
     (case store scope of
        None \<Rightarrow>
          (case produced of
             Inr v \<Rightarrow> (Resolved v, persist scope v now store)
           | Inl e \<Rightarrow> (Rejected e, store))
      | Some entry \<Rightarrow>
          (let age = now - storedAt entry in
           if age \<le> maxAge pol then (Resolved (entryValue entry), store)
           else if age \<le> maxAge pol + staleWhileRevalidate pol then
             (Resolved (entryValue entry),
              case produced of
                Inr v \<Rightarrow> persist scope v now store
              | Inl e \<Rightarrow> store)
           else
             (case produced of
                Inr v \<Rightarrow> (Resolved v, persist scope v now store)
              | Inl e \<Rightarrow> (Resolved (entryValue entry), invalidate scope store))))"

text \<open>
  Modelled from the spec: the scope key of this feature is the identity of the current
  repository.
\<close>

record repository =
  nameWithOwner :: string

definition cacheByRepo :: "repository \<Rightarrow> string" where
  "cacheByRepo repo = nameWithOwner repo"

text \<open>
  \<open>getPrsByFile\<close> as the source declares it (lines 66 and 102-106): the producer above
  behind the cache, with the source's policy in milliseconds and \<open>cacheByRepo\<close> as the
  key. \<open>answer\<close> is what the API call settles with if the producer is called.
\<close>

definition hours :: "nat \<Rightarrow> nat" where
  "hours n = n * 3600000"

definition days :: "nat \<Rightarrow> nat" where
  "days n = n * 86400000"

definition getPrsByFile ::
  "repository \<Rightarrow> error + pullRequest list \<Rightarrow> nat \<Rightarrow> index CacheStore
     \<Rightarrow> index settled \<times> index CacheStore" where
  "getPrsByFile repo answer now store =
     get (cacheByRepo repo) (producer answer)
       \<lparr>maxAge = hours 2, staleWhileRevalidate = days 9\<rparr> now store"

section \<open>The selector observer\<close>

text \<open>
  Modelled from the spec: \<open>observe\<close> of the helper selector-observer is not among the
  source files; \<open>initSingleFile\<close> and \<open>initEditingFile\<close> only call it. A watch keeps
  the elements its callback was invoked for, in the order of the invocations, and
  whether its signal still allows dispatch. An event is a batch of elements added by a
  mutation, in their order of arrival, or the cancellation of the signal.
\<close>

record 'e watch =
  dispatched :: "'e list"
  active :: bool

datatype 'e event = Added "'e list" | Abort

text \<open>
  Modelled from the spec: the callback is invoked for an element when it matches the
  selector and this watch has not invoked it for that element before.
\<close>

definition dispatch :: "('e \<Rightarrow> bool) \<Rightarrow> 'e \<Rightarrow> 'e watch \<Rightarrow> 'e watch" where
  "dispatch matches e w =
     (if matches e \<and> e \<notin> set (dispatched w)
      then w\<lparr>dispatched := dispatched w @ [e]\<rparr>
      else w)"

text \<open>
  Modelled from the spec: \<open>observe\<close> scans the document once at the call, in document
  order.
\<close>

definition observe :: "('e \<Rightarrow> bool) \<Rightarrow> 'e list \<Rightarrow> 'e watch" where
  "observe matches document =
     fold (dispatch matches) document \<lparr>dispatched = [], active = True\<rparr>"

text \<open>
  Modelled from the spec: every batch of added elements is dispatched in its order of
  arrival; the cancellation of the signal stops all later dispatch.
\<close>

fun on_event :: "('e \<Rightarrow> bool) \<Rightarrow> 'e event \<Rightarrow> 'e watch \<Rightarrow> 'e watch" where
  "on_event matches Abort w = w\<lparr>active := False\<rparr>"
| "on_event matches (Added es) w =
     (if active w then fold (dispatch matches) es w else w)"

text \<open>Modelled from the spec: a registration, followed by the events that reach it.\<close>

definition watching :: "('e \<Rightarrow> bool) \<Rightarrow> 'e list \<Rightarrow> 'e event list \<Rightarrow> 'e watch" where
  "watching matches document events = fold (on_event matches) events (observe matches document)"

text \<open>
  The elements that arrive while the watch is alive: those of the document at the call,
  then those of every batch before the first abort.
\<close>

fun arrivals :: "'e event list \<Rightarrow> 'e list" where
  "arrivals [] = []"
| "arrivals (Abort # evs) = []"
| "arrivals (Added es # evs) = es @ arrivals evs"

text \<open>The first occurrence of each element of a list, in the order of the list.\<close>

fun first_seen :: "'e list \<Rightarrow> 'e list \<Rightarrow> 'e list" where
  "first_seen seen [] = []"
| "first_seen seen (x # xs) =
     (if x \<in> set seen then first_seen seen xs else x # first_seen (x # seen) xs)"

text \<open>
  The two registrations of the source (lines 172-178), over the selector matching of the
  page, which is a parameter.
\<close>

definition More_file_actions :: string where
  "More_file_actions = ''[aria-label='' @ [CHR 0x22] @ ''More file actions'' @ [CHR 0x22] @ '']''"

definition initSingleFile :: "(string \<Rightarrow> 'e \<Rightarrow> bool) \<Rightarrow> 'e list \<Rightarrow> 'e event list \<Rightarrow> 'e watch" where
  "initSingleFile matches document events = watching (matches More_file_actions) document events"

definition initEditingFile :: "(string \<Rightarrow> 'e \<Rightarrow> bool) \<Rightarrow> 'e list \<Rightarrow> 'e event list \<Rightarrow> 'e watch" where
  "initEditingFile matches document events = watching (matches ''.file'') document events"

section \<open>Concrete inputs\<close>

text \<open>Eleven pull requests, newest first, that all touch the same file.\<close>

definition eleven :: "pullRequest list" where
  "eleven = map (\<lambda>n. \<lparr>number = n, files = [''a.ts'']\<rparr>) [11, 10, 9, 8, 7, 6, 5, 4, 3, 2, 1]"

text \<open>
  A host whose \<open>Number\<close> is the stand-in above, the index of the scenario, and an
  editing page opened from pull request 3.
\<close>

definition host0 :: host where
  "host0 = \<lparr>buildRepoURL = (\<lambda>parts. ''https://github.com/owner/repo''), isChrome = True, Number = Number_of_digits\<rparr>"

definition index0 :: index where
  "index0 = [''a.ts'' \<mapsto> [10, 3], ''b.ts'' \<mapsto> [10]]"

definition editing0 :: location where
  "editing0 = \<lparr>filePath = ''a.ts'', search = [(''pr'', ''/owner/repo/pull/3'')]\<rparr>"

text \<open>
  Two repositories, the API answer of the scenario, and a store that holds an index for
  the first repository, written at time 0.
\<close>

definition repoA :: repository where
  "repoA = \<lparr>nameWithOwner = ''owner/a''\<rparr>"

definition repoB :: repository where
  "repoB = \<lparr>nameWithOwner = ''owner/b''\<rparr>"

definition answer0 :: "error + pullRequest list" where
  "answer0 = Inr [\<lparr>number = 10, files = [''a.ts'', ''b.ts'']\<rparr>, \<lparr>number = 3, files = [''a.ts'']\<rparr>]"

definition entry0 :: "index CacheEntry" where
  "entry0 = \<lparr>entryValue = index0, storedAt = 0, scopeKey = ''owner/a''\<rparr>"

definition store0 :: "index CacheStore" where
  "store0 = [''owner/a'' \<mapsto> entry0]"

section \<open>Properties of the index loops\<close>

lemma take_take_append: "take n (take n xs @ ys) = take n (xs @ ys)"
  by (cases "n \<le> length xs") auto

lemma push_pr_proto:
  "push_pr n path idx = Inr idx' \<Longrightarrow> idx ''__proto__'' = None \<Longrightarrow> idx' ''__proto__'' = None"
  by (auto simp: push_pr_def get_property_def split: option.splits if_splits jsvalue.splits)

lemma push_pr_stored:
  assumes "push_pr n path idx = Inr idx'" and "key \<noteq> ''__proto__''"
    and "length (stored idx key) \<le> 10"
  shows "stored idx' key = take 10 (stored idx key @ (if path = key then [n] else []))"
  using assms
  by (auto simp: push_pr_def get_property_def stored_def split: option.splits if_splits)

lemma push_pr_dom:
  assumes "push_pr n path idx = Inr idx'" and "key \<noteq> ''__proto__''"
  shows "idx' key = None \<longleftrightarrow> idx key = None \<and> path \<noteq> key"
  using assms
  by (auto simp: push_pr_def get_property_def split: option.splits if_splits)

lemma push_pr_full:
  assumes "idx key = Some ys" and "length ys = 10"
  shows "push_pr n key idx = Inr idx"
  using assms by (simp add: push_pr_def get_property_def)

lemma push_pr_full_kept:
  assumes "push_pr n path idx = Inr idx'" and "idx key = Some ys" and "length ys = 10"
  shows "idx' key = Some ys"
  using assms
  by (auto simp: push_pr_def get_property_def split: option.splits if_splits)

lemma push_pr_fresh:
  assumes "path \<noteq> ''__proto__''" and "path \<notin> set Object_prototype_methods"
    and "length (stored idx path) < 10"
  shows "push_pr n path idx = Inr (idx(path \<mapsto> stored idx path @ [n]))"
  using assms
  by (auto simp: push_pr_def get_property_def stored_def split: option.splits)

lemma push_pr_total:
  "path \<notin> set Object_prototype_methods \<Longrightarrow> \<exists>idx'. push_pr n path idx = Inr idx'"
  by (auto simp: push_pr_def get_property_def split: option.splits if_splits)

lemma files_loop_total:
  "set paths \<inter> set Object_prototype_methods = {} \<Longrightarrow> \<exists>idx'. files_loop n paths idx = Inr idx'"
proof (induction paths arbitrary: idx)
  case Nil
  then show ?case by simp
next
  case (Cons p ps)
  then have "p \<notin> set Object_prototype_methods" by auto
  from push_pr_total [OF this] obtain idx1 where "push_pr n p idx = Inr idx1" by blast
  moreover from Cons have "\<exists>idx'. files_loop n ps idx1 = Inr idx'" by auto
  ultimately show ?case by simp
qed

lemma prs_loop_total:
  "\<forall>pr \<in> set nodes. set (files pr) \<inter> set Object_prototype_methods = {}
     \<Longrightarrow> \<exists>idx'. prs_loop nodes idx = Inr idx'"
proof (induction nodes arbitrary: idx)
  case Nil
  then show ?case by simp
next
  case (Cons pr prs)
  then have "set (files pr) \<inter> set Object_prototype_methods = {}" by simp
  from files_loop_total [OF this] obtain idx1 where
    "files_loop (number pr) (files pr) idx = Inr idx1" by blast
  moreover from Cons have "\<exists>idx'. prs_loop prs idx1 = Inr idx'" by auto
  ultimately show ?case by simp
qed

lemma buildIndex_total:
  "\<forall>pr \<in> set nodes. set (files pr) \<inter> set Object_prototype_methods = {}
     \<Longrightarrow> \<exists>idx. buildIndex nodes = Inr idx"
  unfolding buildIndex_def by (rule prs_loop_total)

text \<open>A file named like an inherited function makes the loop throw.\<close>

lemma buildIndex_inherited_function:
  "buildIndex [\<lparr>number = 1, files = [''src/a.ts'', ''constructor'']\<rparr>] = Inl TypeError"
  by (simp add: buildIndex_def push_pr_def get_property_def Object_prototype_methods_def)

lemma files_loop_full_kept:
  assumes "files_loop n paths idx = Inr idx'" and "idx key = Some ys" and "length ys = 10"
  shows "idx' key = Some ys"
  using assms
proof (induction paths arbitrary: idx)
  case Nil
  then show ?case by simp
next
  case (Cons p ps)
  from Cons.prems(1) obtain idx1 where
    step: "push_pr n p idx = Inr idx1" and rest: "files_loop n ps idx1 = Inr idx'"
    by (auto split: sum.splits)
  from push_pr_full_kept [OF step Cons.prems(2,3)] have "idx1 key = Some ys" .
  from Cons.IH [OF rest this Cons.prems(3)] show ?case .
qed

lemma prs_loop_full_kept:
  assumes "prs_loop nodes idx = Inr idx'" and "idx key = Some ys" and "length ys = 10"
  shows "idx' key = Some ys"
  using assms
proof (induction nodes arbitrary: idx)
  case Nil
  then show ?case by simp
next
  case (Cons pr prs)
  from Cons.prems(1) obtain idx1 where
    step: "files_loop (number pr) (files pr) idx = Inr idx1" and rest: "prs_loop prs idx1 = Inr idx'"
    by (auto split: sum.splits)
  from files_loop_full_kept [OF step Cons.prems(2,3)] have "idx1 key = Some ys" .
  from Cons.IH [OF rest this Cons.prems(3)] show ?case .
qed

lemma prs_loop_append:
  "prs_loop (xs @ ys) idx =
     (case prs_loop xs idx of Inl e \<Rightarrow> Inl e | Inr idx' \<Rightarrow> prs_loop ys idx')"
  by (induction xs arbitrary: idx) (auto split: sum.splits)

lemma contributions_set:
  "n \<in> set (contributions nodes key) \<Longrightarrow> \<exists>pr \<in> set nodes. number pr = n \<and> key \<in> set (files pr)"
  by (auto simp: contributions_def)

lemma files_loop_proto:
  "files_loop n paths idx = Inr idx' \<Longrightarrow> idx ''__proto__'' = None \<Longrightarrow> idx' ''__proto__'' = None"
proof (induction paths arbitrary: idx)
  case Nil
  then show ?case by simp
next
  case (Cons p ps)
  from Cons.prems(1) obtain idx1 where
    step: "push_pr n p idx = Inr idx1" and rest: "files_loop n ps idx1 = Inr idx'"
    by (auto split: sum.splits)
  from push_pr_proto [OF step Cons.prems(2)] have "idx1 ''__proto__'' = None" .
  from Cons.IH [OF rest this] show ?case .
qed

lemma files_loop_stored:
  assumes "files_loop n paths idx = Inr idx'" and "key \<noteq> ''__proto__''"
    and "length (stored idx key) \<le> 10"
  shows "stored idx' key = take 10 (stored idx key @ map (\<lambda>_. n) (filter (\<lambda>path. path = key) paths))"
  using assms
proof (induction paths arbitrary: idx)
  case Nil
  then show ?case by simp
next
  case (Cons p ps)
  from Cons.prems(1) obtain idx1 where
    step: "push_pr n p idx = Inr idx1" and rest: "files_loop n ps idx1 = Inr idx'"
    by (auto split: sum.splits)
  have s1: "stored idx1 key = take 10 (stored idx key @ (if p = key then [n] else []))"
    using push_pr_stored [OF step Cons.prems(2) Cons.prems(3)] .
  then have len1: "length (stored idx1 key) \<le> 10" by simp
  have "stored idx' key = take 10 (stored idx1 key @ map (\<lambda>_. n) (filter (\<lambda>path. path = key) ps))"
    using Cons.IH [OF rest Cons.prems(2) len1] .
  also have "\<dots> = take 10 ((stored idx key @ (if p = key then [n] else []))
      @ map (\<lambda>_. n) (filter (\<lambda>path. path = key) ps))"
    unfolding s1 by (rule take_take_append)
  also have "\<dots> = take 10 (stored idx key @ map (\<lambda>_. n) (filter (\<lambda>path. path = key) (p # ps)))"
    by (simp del: take_append)
  finally show ?case .
qed

lemma files_loop_dom:
  assumes "files_loop n paths idx = Inr idx'" and "key \<noteq> ''__proto__''"
  shows "idx' key = None \<longleftrightarrow> idx key = None \<and> key \<notin> set paths"
  using assms
proof (induction paths arbitrary: idx)
  case Nil
  then show ?case by simp
next
  case (Cons p ps)
  from Cons.prems(1) obtain idx1 where
    step: "push_pr n p idx = Inr idx1" and rest: "files_loop n ps idx1 = Inr idx'"
    by (auto split: sum.splits)
  show ?case
    using Cons.IH [OF rest Cons.prems(2)] push_pr_dom [OF step Cons.prems(2)] by auto
qed

lemma prs_loop_proto:
  "prs_loop nodes idx = Inr idx' \<Longrightarrow> idx ''__proto__'' = None \<Longrightarrow> idx' ''__proto__'' = None"
proof (induction nodes arbitrary: idx)
  case Nil
  then show ?case by simp
next
  case (Cons pr prs)
  from Cons.prems(1) obtain idx1 where
    step: "files_loop (number pr) (files pr) idx = Inr idx1" and rest: "prs_loop prs idx1 = Inr idx'"
    by (auto split: sum.splits)
  from files_loop_proto [OF step Cons.prems(2)] have "idx1 ''__proto__'' = None" .
  from Cons.IH [OF rest this] show ?case .
qed

lemma prs_loop_stored:
  assumes "prs_loop nodes idx = Inr idx'" and "key \<noteq> ''__proto__''"
    and "length (stored idx key) \<le> 10"
  shows "stored idx' key = take 10 (stored idx key @ contributions nodes key)"
  using assms
proof (induction nodes arbitrary: idx)
  case Nil
  then show ?case by (simp add: contributions_def)
next
  case (Cons pr prs)
  from Cons.prems(1) obtain idx1 where
    step: "files_loop (number pr) (files pr) idx = Inr idx1" and rest: "prs_loop prs idx1 = Inr idx'"
    by (auto split: sum.splits)
  have s1: "stored idx1 key =
      take 10 (stored idx key @ map (\<lambda>_. number pr) (filter (\<lambda>path. path = key) (files pr)))"
    using files_loop_stored [OF step Cons.prems(2) Cons.prems(3)] .
  then have len1: "length (stored idx1 key) \<le> 10" by simp
  have "stored idx' key = take 10 (stored idx1 key @ contributions prs key)"
    using Cons.IH [OF rest Cons.prems(2) len1] .
  also have "\<dots> = take 10 ((stored idx key
      @ map (\<lambda>_. number pr) (filter (\<lambda>path. path = key) (files pr))) @ contributions prs key)"
    unfolding s1 by (rule take_take_append)
  also have "\<dots> = take 10 (stored idx key @ contributions (pr # prs) key)"
    by (simp add: contributions_def del: take_append)
  finally show ?case .
qed

lemma prs_loop_dom:
  assumes "prs_loop nodes idx = Inr idx'" and "key \<noteq> ''__proto__''"
  shows "idx' key = None \<longleftrightarrow> idx key = None \<and> (\<forall>pr \<in> set nodes. key \<notin> set (files pr))"
  using assms
proof (induction nodes arbitrary: idx)
  case Nil
  then show ?case by simp
next
  case (Cons pr prs)
  from Cons.prems(1) obtain idx1 where
    step: "files_loop (number pr) (files pr) idx = Inr idx1" and rest: "prs_loop prs idx1 = Inr idx'"
    by (auto split: sum.splits)
  show ?case
    using Cons.IH [OF rest Cons.prems(2)] files_loop_dom [OF step Cons.prems(2)] by auto
qed

lemma buildIndex_key:
  assumes "buildIndex nodes = Inr idx" and "idx key = Some xs"
  shows "key \<noteq> ''__proto__''"
proof -
  from assms(1) have run: "prs_loop nodes Map.empty = Inr idx"
    by (simp add: buildIndex_def)
  from prs_loop_proto [OF run] assms(2) show ?thesis by auto
qed

lemma buildIndex_stored:
  assumes "buildIndex nodes = Inr idx" and "key \<noteq> ''__proto__''"
  shows "stored idx key = take 10 (contributions nodes key)"
proof -
  from assms(1) have run: "prs_loop nodes Map.empty = Inr idx"
    by (simp add: buildIndex_def)
  have "stored idx key = take 10 (stored Map.empty key @ contributions nodes key)"
    by (rule prs_loop_stored [OF run assms(2)]) (simp add: stored_def)
  then show ?thesis by (simp add: stored_def)
qed

lemma buildIndex_lookup:
  assumes "buildIndex nodes = Inr idx" and "idx key = Some xs"
  shows "xs = take 10 (contributions nodes key)"
  using buildIndex_stored [OF assms(1) buildIndex_key [OF assms]] assms(2)
  by (simp add: stored_def)

lemma contributions_Nil:
  "contributions nodes key = [] \<longleftrightarrow> (\<forall>pr \<in> set nodes. key \<notin> set (files pr))"
  by (auto simp: contributions_def filter_empty_conv)

lemma buildIndex_dom:
  assumes "buildIndex nodes = Inr idx" and "key \<noteq> ''__proto__''"
  shows "idx key = None \<longleftrightarrow> contributions nodes key = []"
proof -
  from assms(1) have run: "prs_loop nodes Map.empty = Inr idx"
    by (simp add: buildIndex_def)
  from prs_loop_dom [OF run assms(2)] show ?thesis
    by (simp add: contributions_Nil)
qed

section \<open>Properties of the string helpers\<close>

lemma split_not_Nil: "split sep s \<noteq> []"
  by (induction s) (auto split: list.splits)

lemma Array_toString_last: "xs \<noteq> [] \<Longrightarrow> Array_toString (slice_last xs) = last xs"
  by (cases xs rule: rev_cases) (simp_all add: slice_last_def)

lemma Array_toString_slice_last: "Array_toString (slice_last (split sep s)) = last (split sep s)"
  by (rule Array_toString_last) (rule split_not_Nil)

section \<open>Properties of the selector observer\<close>

lemma first_seen_cong: "set s = set s' \<Longrightarrow> first_seen s xs = first_seen s' xs"
proof (induction xs arbitrary: s s')
  case Nil
  then show ?case by simp
next
  case (Cons x xs)
  have "set (x # s) = set (x # s')" using Cons.prems by simp
  from Cons.IH [OF this] Cons.IH [OF Cons.prems] Cons.prems show ?case by simp
qed

lemma first_seen_append:
  "first_seen s (xs @ ys) = first_seen s xs @ first_seen (s @ first_seen s xs) ys"
proof (induction xs arbitrary: s)
  case Nil
  then show ?case by simp
next
  case (Cons x xs)
  show ?case
  proof (cases "x \<in> set s")
    case True
    then show ?thesis by (simp add: Cons.IH)
  next
    case False
    have "first_seen (x # s @ first_seen (x # s) xs) ys = first_seen (s @ x # first_seen (x # s) xs) ys"
      by (rule first_seen_cong) simp
    with False show ?thesis by (simp add: Cons.IH)
  qed
qed

lemma set_first_seen: "set (first_seen s xs) = set xs - set s"
  by (induction xs arbitrary: s) auto

lemma distinct_first_seen: "distinct (first_seen s xs)"
  by (induction xs arbitrary: s) (simp_all add: set_first_seen)

lemma count_list_distinct: "distinct xs \<Longrightarrow> x \<in> set xs \<Longrightarrow> count_list xs x = 1"
  by (induction xs) auto

lemma fold_dispatch:
  "fold (dispatch matches) es w =
     w\<lparr>dispatched := dispatched w @ first_seen (dispatched w) (filter matches es)\<rparr>"
proof (induction es arbitrary: w)
  case Nil
  then show ?case by simp
next
  case (Cons e es)
  show ?case
  proof (cases "matches e \<and> e \<notin> set (dispatched w)")
    case True
    have step: "dispatch matches e w = w\<lparr>dispatched := dispatched w @ [e]\<rparr>"
      using True by (simp add: dispatch_def)
    have "first_seen (dispatched w @ [e]) (filter matches es)
        = first_seen (e # dispatched w) (filter matches es)"
      by (rule first_seen_cong) simp
    with True show ?thesis by (simp add: Cons.IH step)
  next
    case False
    then have step: "dispatch matches e w = w"
      by (auto simp: dispatch_def)
    from False show ?thesis by (auto simp: Cons.IH step)
  qed
qed


lemma fold_on_event_inactive:
  "\<not> active w \<Longrightarrow> dispatched (fold (on_event matches) events w) = dispatched w"
proof (induction events arbitrary: w)
  case Nil
  then show ?case by simp
next
  case (Cons ev evs)
  show ?case
  proof (cases ev)
    case Abort
    have "\<not> active (w\<lparr>active := False\<rparr>)" by simp
    from Cons.IH [OF this] Abort show ?thesis by simp
  next
    case (Added es)
    with Cons.prems have "on_event matches ev w = w" by simp
    with Cons.IH [OF Cons.prems] show ?thesis by simp
  qed
qed


lemma fold_on_event_active:
  "active w \<Longrightarrow> dispatched (fold (on_event matches) events w) =
     dispatched w @ first_seen (dispatched w) (filter matches (arrivals events))"
proof (induction events arbitrary: w)
  case Nil
  then show ?case by simp
next
  case (Cons ev evs)
  show ?case
  proof (cases ev)
    case Abort
    have "\<not> active (w\<lparr>active := False\<rparr>)" by simp
    from fold_on_event_inactive [OF this] Abort show ?thesis by simp
  next
    case (Added es)
    let ?w = "fold (dispatch matches) es w"
    have w': "?w = w\<lparr>dispatched := dispatched w @ first_seen (dispatched w) (filter matches es)\<rparr>"
      by (rule fold_dispatch)
    from Cons.prems have act: "active ?w" by (simp add: w')
    have "dispatched (fold (on_event matches) (ev # evs) w) = dispatched (fold (on_event matches) evs ?w)"
      using Added Cons.prems by simp
    also have "\<dots> = dispatched ?w @ first_seen (dispatched ?w) (filter matches (arrivals evs))"
      by (rule Cons.IH [OF act])
    also have "\<dots> = dispatched w @ first_seen (dispatched w) (filter matches (es @ arrivals evs))"
      by (simp add: w' first_seen_append)
    finally show ?thesis using Added by simp
  qed
qed

lemma dispatched_watching:
  "dispatched (watching matches document events) =
     first_seen [] (filter matches (document @ arrivals events))"
proof -
  let ?w = "observe matches document"
  have w: "?w = \<lparr>dispatched = first_seen [] (filter matches document), active = True\<rparr>"
    by (simp add: observe_def fold_dispatch)
  then have "active ?w" by simp
  from fold_on_event_active [OF this]
  have "dispatched (watching matches document events)
      = dispatched ?w @ first_seen (dispatched ?w) (filter matches (arrivals events))"
    by (simp add: watching_def)
  then show ?thesis by (simp add: w first_seen_append)
qed

section \<open>The claims about the index\<close>

lemma buildIndex_eleven:
  "buildIndex eleven = Inr [''a.ts'' \<mapsto> [11, 10, 9, 8, 7, 6, 5, 4, 3, 2]]"
  by (simp add: eleven_def buildIndex_def push_pr_def get_property_def Object_prototype_methods_def)

text \<open>
  C1. In every index the aggregation loop returns, the list stored at a key has at most
  10 entries; and once the list of a key holds 10 entries, whatever pull requests are
  processed afterwards, the list of that key stays as it is: every further contribution
  to the key is dropped.
\<close>

theorem index_lists_capped:
  "(buildIndex nodes = Inr idx \<and> idx key = Some xs \<longrightarrow> length xs \<le> 10) \<and>
   (prs_loop later acc = Inr idx' \<and> acc key = Some ys \<and> length ys = 10 \<longrightarrow> idx' key = Some ys)"
proof (intro conjI impI)
  assume "buildIndex nodes = Inr idx \<and> idx key = Some xs"
  then have "xs = take 10 (contributions nodes key)"
    by (blast intro: buildIndex_lookup)
  then show "length xs \<le> 10" by simp
next
  assume "prs_loop later acc = Inr idx' \<and> acc key = Some ys \<and> length ys = 10"
  then show "idx' key = Some ys"
    by (blast intro: prs_loop_full_kept)
qed

theorem index_lists_capped_witness:
  "buildIndex eleven = Inr [''a.ts'' \<mapsto> [11, 10, 9, 8, 7, 6, 5, 4, 3, 2]]
   \<and> length [11, 10, 9, 8, 7, 6, 5, 4, 3, 2 :: int] \<le> 10
   \<and> prs_loop [\<lparr>number = 1, files = [''a.ts'']\<rparr>] [''a.ts'' \<mapsto> [11, 10, 9, 8, 7, 6, 5, 4, 3, 2]]
       = Inr [''a.ts'' \<mapsto> [11, 10, 9, 8, 7, 6, 5, 4, 3, 2]]"
  using index_lists_capped [of eleven "[''a.ts'' \<mapsto> [11, 10, 9, 8, 7, 6, 5, 4, 3, 2]]" "''a.ts''"
      "[11, 10, 9, 8, 7, 6, 5, 4, 3, 2]" "[\<lparr>number = 1, files = [''a.ts'']\<rparr>]"
      "[''a.ts'' \<mapsto> [11, 10, 9, 8, 7, 6, 5, 4, 3, 2]]"
      "[''a.ts'' \<mapsto> [11, 10, 9, 8, 7, 6, 5, 4, 3, 2]]" "[11, 10, 9, 8, 7, 6, 5, 4, 3, 2]"]
    buildIndex_eleven
  by (simp add: push_pr_def get_property_def)

text \<open>
  C3. The two records \<open>{number: 10, files: ["a.ts", "b.ts"]}\<close> and
  \<open>{number: 3, files: ["a.ts"]}\<close>, in that order, give exactly the index
  \<open>{"a.ts": [10, 3], "b.ts": [10]}\<close>.
\<close>

theorem buildIndex_scenario:
  "buildIndex [\<lparr>number = 10, files = [''a.ts'', ''b.ts'']\<rparr>, \<lparr>number = 3, files = [''a.ts'']\<rparr>]
     = Inr [''a.ts'' \<mapsto> [10, 3], ''b.ts'' \<mapsto> [10]]"
  by (simp add: buildIndex_def push_pr_def get_property_def Object_prototype_methods_def
      fun_upd_twist)

text \<open>
  What the loop does store: the list a returned index holds at a key is the first 10
  elements of the concatenation of the ids the records contribute to the key, in
  processing order; and every key with a contribution, except the accessor name
  \<open>__proto__\<close>, does hold that list.
\<close>

lemma buildIndex_prefix:
  assumes "buildIndex nodes = Inr idx"
  shows "(idx key = Some xs \<longrightarrow> xs = take 10 (contributions nodes key)) \<and>
         (key \<noteq> ''__proto__'' \<and> contributions nodes key \<noteq> [] \<longrightarrow>
            idx key = Some (take 10 (contributions nodes key)))"
proof (intro conjI impI)
  assume "idx key = Some xs"
  with assms show "xs = take 10 (contributions nodes key)"
    by (rule buildIndex_lookup)
next
  assume k: "key \<noteq> ''__proto__'' \<and> contributions nodes key \<noteq> []"
  then have "idx key \<noteq> None"
    using buildIndex_dom [OF assms, of key] by simp
  then obtain ys where ys: "idx key = Some ys" by blast
  from buildIndex_lookup [OF assms ys] ys
  show "idx key = Some (take 10 (contributions nodes key))" by simp
qed

text \<open>
  C2. The claim: for every list of records, processed in the order \<open>r1, r2, \<dots>\<close>,
  and for every key, the list stored at the key is the first 10 elements of the
  concatenation of the ids the records contribute to the key. The loop does not do
  this for the keys that a plain object inherits. For the records
  \<open>{number: 1, files: ["__proto__", "a.ts"]}\<close> and \<open>{number: 2, files: ["__proto__"]}\<close>
  the contributions to \<open>__proto__\<close> are 1 and 2, and the index returned holds nothing at
  that key; for a record with the file \<open>constructor\<close> the loop throws and no index is
  returned at all.
\<close>

theorem prefix_broken_at_inherited_keys:
  "buildIndex [\<lparr>number = 1, files = [''__proto__'', ''a.ts'']\<rparr>, \<lparr>number = 2, files = [''__proto__'']\<rparr>]
     = Inr [''a.ts'' \<mapsto> [1]] \<and>
   [''a.ts'' \<mapsto> [1 :: int]] ''__proto__'' = None \<and>
   take 10 (contributions
       [\<lparr>number = 1, files = [''__proto__'', ''a.ts'']\<rparr>, \<lparr>number = 2, files = [''__proto__'']\<rparr>]
       ''__proto__'') = [1, 2] \<and>
   buildIndex [\<lparr>number = 1, files = [''constructor'']\<rparr>] = Inl TypeError \<and>
   take 10 (contributions [\<lparr>number = 1, files = [''constructor'']\<rparr>] ''constructor'') = [1]"
  by (simp add: buildIndex_def push_pr_def get_property_def Object_prototype_methods_def
      contributions_def)

text \<open>
  What the loop does for a record: one without file paths adds nothing, so the index
  built from the records is the one built without it; and a key other than \<open>__proto__\<close>
  receives the number of the record once for each time the record lists the key,
  duplicates included, up to the cap of 10.
\<close>

lemma empty_record_adds_nothing:
  assumes "files pr = []"
  shows "files_loop (number pr) (files pr) acc = Inr acc"
    and "buildIndex (earlier @ pr # later) = buildIndex (earlier @ later)"
  using assms by (simp_all add: buildIndex_def prs_loop_append split: sum.splits)

lemma map_filter_replicate:
  "map (\<lambda>_. n) (filter (\<lambda>path. path = key) paths) = replicate (count_list paths key) n"
  by (induction paths) simp_all

lemma files_loop_appends_each_listing:
  assumes "files_loop n paths acc = Inr idx'" and "key \<noteq> ''__proto__''"
    and "length (stored acc key) \<le> 10"
  shows "stored idx' key = take 10 (stored acc key @ replicate (count_list paths key) n)"
  using files_loop_stored [OF assms] by (simp only: map_filter_replicate)

text \<open>
  C7. The claim: for every list of records, a record without contributions adds no key,
  and an id that a record contributes twice to a key is appended twice: the loop removes
  no duplicates. The loop does this for an ordinary path such as \<open>a.ts\<close>, and does not
  for the keys that a plain object inherits. For the record
  \<open>{number: 5, files: ["__proto__", "__proto__"]}\<close> the contributions to \<open>__proto__\<close>
  are 5 and 5, and the index returned is empty; for
  \<open>{number: 5, files: ["toString", "toString"]}\<close> the loop throws and no index is
  returned.
\<close>

theorem duplicates_lost_at_inherited_keys:
  "buildIndex [\<lparr>number = 5, files = [''a.ts'', ''a.ts'']\<rparr>] = Inr [''a.ts'' \<mapsto> [5, 5]] \<and>
   buildIndex [\<lparr>number = 5, files = [''__proto__'', ''__proto__'']\<rparr>] = Inr Map.empty \<and>
   contributions [\<lparr>number = 5, files = [''__proto__'', ''__proto__'']\<rparr>] ''__proto__'' = [5, 5] \<and>
   buildIndex [\<lparr>number = 5, files = [''toString'', ''toString'']\<rparr>] = Inl TypeError"
  by (simp add: buildIndex_def push_pr_def get_property_def Object_prototype_methods_def
      contributions_def)

text \<open>
  C8. Provenance: every key of a returned index is a file path of some input record, and
  every number stored at a key is the number of an input record whose file paths include
  that key.
\<close>

theorem index_provenance:
  assumes "buildIndex nodes = Inr idx" and "idx key = Some xs"
  shows "(\<exists>pr \<in> set nodes. key \<in> set (files pr)) \<and>
         (\<forall>n \<in> set xs. \<exists>pr \<in> set nodes. number pr = n \<and> key \<in> set (files pr))"
proof
  have k: "key \<noteq> ''__proto__''"
    using assms by (rule buildIndex_key)
  from buildIndex_dom [OF assms(1) k] assms(2) have "contributions nodes key \<noteq> []"
    by simp
  then show "\<exists>pr \<in> set nodes. key \<in> set (files pr)"
    by (simp add: contributions_Nil)
next
  have xs: "xs = take 10 (contributions nodes key)"
    using assms by (rule buildIndex_lookup)
  show "\<forall>n \<in> set xs. \<exists>pr \<in> set nodes. number pr = n \<and> key \<in> set (files pr)"
  proof
    fix n
    assume "n \<in> set xs"
    then have "n \<in> set (contributions nodes key)"
      unfolding xs by (rule in_set_takeD)
    then show "\<exists>pr \<in> set nodes. number pr = n \<and> key \<in> set (files pr)"
      by (rule contributions_set)
  qed
qed

theorem index_provenance_witness:
  "buildIndex eleven = Inr [''a.ts'' \<mapsto> [11, 10, 9, 8, 7, 6, 5, 4, 3, 2]] \<and>
   (\<exists>pr. pr \<in> set eleven \<and> ''a.ts'' \<in> set (files pr)) \<and>
   (\<exists>pr. pr \<in> set eleven \<and> number pr = 7 \<and> ''a.ts'' \<in> set (files pr))"
proof -
  have s: "[''a.ts'' \<mapsto> [11, 10, 9, 8, 7, 6, 5, 4, 3, 2 :: int]] ''a.ts''
      = Some [11, 10, 9, 8, 7, 6, 5, 4, 3, 2]"
    by simp
  from index_provenance [OF buildIndex_eleven s] buildIndex_eleven
  show ?thesis by (simp add: Bex_def)
qed

section \<open>The claims about the page\<close>

text \<open>
  C9. When the index has no entry for the file path of the page (the lookup
  \<open>prsByFile[path]\<close> is undefined), \<open>addToSingleFile\<close> and \<open>addToEditingFile\<close>
  both return early and leave the document as it was: nothing is inserted.
\<close>

theorem no_entry_no_insertion:
  assumes "get_property prsByFile (filePath loc) = Undefined"
  shows "addToSingleFile h loc (Inr prsByFile) moreFileActionsDropdown doc = (None, doc) \<and>
         addToEditingFile h loc (Inr prsByFile) file doc = (None, doc)"
  using assms by (simp add: addToSingleFile_def addToEditingFile_def)

theorem no_entry_no_insertion_witness:
  "get_property index0 ''c.ts'' = Undefined \<and>
   addToSingleFile host0 \<lparr>filePath = ''c.ts'', search = []\<rparr> (Inr index0) 1 [PageElement 0, PageElement 1]
     = (None, [PageElement 0, PageElement 1]) \<and>
   addToEditingFile host0 \<lparr>filePath = ''c.ts'', search = []\<rparr> (Inr index0) 0 [PageElement 0, PageElement 1]
     = (None, [PageElement 0, PageElement 1])"
proof -
  have u: "get_property index0 (filePath \<lparr>filePath = ''c.ts'', search = []\<rparr>) = Undefined"
    by (simp add: get_property_def index0_def Object_prototype_methods_def)
  from no_entry_no_insertion [OF u, of host0 1 "[PageElement 0, PageElement 1]" 0] u
  show ?thesis by simp
qed

text \<open>
  C10. In \<open>addToEditingFile\<close>, when the query string has a \<open>pr\<close> parameter, the pull
  requests of the file are rendered without the one being edited, which is the number
  read from the last segment of the parameter; when nothing is left, no warning is
  inserted after the file element, and otherwise the warning lists what is left.
\<close>

theorem editing_pr_filtered:
  assumes "prsByFile (filePath loc) = Some prs"
    and "map_of (search loc) ''pr'' = Some v"
  shows "addToEditingFile h loc (Inr prsByFile) fileElement doc =
           (let kept = filter (\<lambda>pr. Some pr \<noteq> Number h (last (split CHR ''/'' v))) prs
            in if kept = [] then (None, doc)
               else (None, after fileElement (warning h (filePath loc) kept) doc)) \<and>
         (Number h (last (split CHR ''/'' v)) = Some editing \<longrightarrow>
            filter (\<lambda>pr. Some pr \<noteq> Number h (last (split CHR ''/'' v))) prs = removeAll editing prs)"
proof
  have g: "get_property prsByFile (filePath loc) = NumberArray prs"
    using assms(1) by (simp add: get_property_def)
  have e: "editingPRNumber loc = Some (slice_last (split CHR ''/'' v))"
    using assms(2) by (simp add: editingPRNumber_def)
  show "addToEditingFile h loc (Inr prsByFile) fileElement doc =
           (let kept = filter (\<lambda>pr. Some pr \<noteq> Number h (last (split CHR ''/'' v))) prs
            in if kept = [] then (None, doc)
               else (None, after fileElement (warning h (filePath loc) kept) doc))"
    by (simp add: addToEditingFile_def g e Array_toString_slice_last Let_def)
next
  show "Number h (last (split CHR ''/'' v)) = Some editing \<longrightarrow>
            filter (\<lambda>pr. Some pr \<noteq> Number h (last (split CHR ''/'' v))) prs = removeAll editing prs"
    by (induction prs) auto
qed

theorem editing_pr_filtered_witness:
  "addToEditingFile host0 editing0 (Inr index0) 0 [PageElement 0]
     = (None, [PageElement 0, warning host0 ''a.ts'' [10]]) \<and>
   addToEditingFile host0 editing0 (Inr [''a.ts'' \<mapsto> [3]]) 0 [PageElement 0]
     = (None, [PageElement 0])"
proof -
  have n: "Number host0 ''3'' = Some 3"
    by (simp add: host0_def Number_of_digits_def digit_value_def)
  have p: "map_of (search editing0) ''pr'' = Some ''/owner/repo/pull/3''"
    by (simp add: editing0_def)
  have i: "index0 (filePath editing0) = Some [10, 3]"
    by (simp add: index0_def editing0_def)
  have j: "[''a.ts'' \<mapsto> [3::int]] (filePath editing0) = Some [3]"
    by (simp add: editing0_def)
  have f: "filePath editing0 = ''a.ts''"
    by (simp add: editing0_def)
  from editing_pr_filtered [where prsByFile = index0 and loc = editing0 and h = host0
      and fileElement = 0 and doc = "[PageElement 0]" and editing = 3, OF i p]
    editing_pr_filtered [where prsByFile = "[''a.ts'' \<mapsto> [3]]" and loc = editing0 and h = host0
      and fileElement = 0 and doc = "[PageElement 0]" and editing = 3, OF j p]
  show ?thesis by (simp add: n f)
qed

section \<open>The claims about the cache\<close>

lemma get_rejects:
  "store scope = None \<Longrightarrow> fst (get scope (Inl e) pol now store) = Rejected e"
  by (simp add: get_def)

lemma get_falls_back:
  "store scope = Some entry \<Longrightarrow> fst (get scope (Inl e) pol now store) = Resolved (entryValue entry)"
  by (simp add: get_def Let_def)

lemma get_frame:
  "other \<noteq> scope \<Longrightarrow> snd (get scope produced pol now store) other = store other"
  by (simp add: get_def Let_def persist_def invalidate_def split: option.splits sum.splits)

lemma producer_answer0: "producer answer0 = Inr index0"
  by (simp add: producer_def answer0_def index0_def buildIndex_def push_pr_def get_property_def
      Object_prototype_methods_def fun_upd_twist)

text \<open>
  C4. A call of the cached \<open>getPrsByFile\<close> whose producer fails is rejected with that
  failure when the store has no entry for the scope key of the repository; when it has
  one, the call resolves with the value of that entry and the failure is not surfaced.
\<close>

theorem producer_failure:
  assumes "producer answer = Inl e"
  shows "(store (cacheByRepo repo) = None \<longrightarrow>
            fst (getPrsByFile repo answer now store) = Rejected e) \<and>
         (store (cacheByRepo repo) = Some entry \<longrightarrow>
            fst (getPrsByFile repo answer now store) = Resolved (entryValue entry))"
  using assms by (simp add: getPrsByFile_def get_rejects get_falls_back)

theorem producer_failure_witness:
  "producer (Inl ProducerFailure) = Inl ProducerFailure \<and>
   fst (getPrsByFile repoB (Inl ProducerFailure) (hours 3) store0) = Rejected ProducerFailure \<and>
   fst (getPrsByFile repoA (Inl ProducerFailure) (hours 3) store0) = Resolved index0"
proof -
  have p: "producer (Inl ProducerFailure) = Inl ProducerFailure"
    by (simp add: producer_def)
  have b: "store0 (cacheByRepo repoB) = None"
    by (simp add: store0_def cacheByRepo_def repoB_def)
  have a: "store0 (cacheByRepo repoA) = Some entry0"
    by (simp add: store0_def cacheByRepo_def repoA_def)
  from producer_failure [OF p, of store0 repoB "hours 3" entry0]
    producer_failure [OF p, of store0 repoA "hours 3" entry0] p a b
  show ?thesis by (simp add: entry0_def)
qed

text \<open>
  C5. Reading, refreshing or invalidating the entry of one scope key leaves the entry of
  every other scope key as it was, value and timestamp included; the scope keys of two
  different repositories differ, so a call of \<open>getPrsByFile\<close> for one repository never
  touches the cached index of another.
\<close>

theorem scopes_do_not_interact:
  "(k1 \<noteq> k2 \<longrightarrow>
      snd (get k1 produced pol now store) k2 = store k2 \<and> invalidate k1 store k2 = store k2) \<and>
   (r1 \<noteq> r2 \<longrightarrow>
      cacheByRepo r1 \<noteq> cacheByRepo r2 \<and>
      snd (getPrsByFile r1 answer now store) (cacheByRepo r2) = store (cacheByRepo r2) \<and>
      invalidate (cacheByRepo r1) store (cacheByRepo r2) = store (cacheByRepo r2))"
proof (intro conjI impI)
  assume "k1 \<noteq> k2"
  then show "snd (get k1 produced pol now store) k2 = store k2"
    by (simp add: get_frame)
next
  assume "k1 \<noteq> k2"
  then show "invalidate k1 store k2 = store k2"
    by (simp add: invalidate_def)
next
  assume "r1 \<noteq> r2"
  then show k: "cacheByRepo r1 \<noteq> cacheByRepo r2"
    by (cases r1, cases r2) (simp add: cacheByRepo_def)
  then show "snd (getPrsByFile r1 answer now store) (cacheByRepo r2) = store (cacheByRepo r2)"
    by (simp add: getPrsByFile_def get_frame)
  from k show "invalidate (cacheByRepo r1) store (cacheByRepo r2) = store (cacheByRepo r2)"
    by (simp add: invalidate_def)
qed

theorem scopes_do_not_interact_witness:
  "repoB \<noteq> repoA \<and>
   snd (getPrsByFile repoB answer0 (days 30) store0) (cacheByRepo repoB)
     = Some \<lparr>entryValue = index0, storedAt = days 30, scopeKey = ''owner/b''\<rparr> \<and>
   snd (getPrsByFile repoB answer0 (days 30) store0) (cacheByRepo repoA) = Some entry0 \<and>
   invalidate (cacheByRepo repoB) store0 (cacheByRepo repoA) = Some entry0 \<and>
   snd (get ''owner/b'' (producer answer0) \<lparr>maxAge = hours 2, staleWhileRevalidate = days 9\<rparr>
          (days 30) store0) ''owner/a'' = Some entry0"
proof -
  have d: "repoB \<noteq> repoA"
    by (simp add: repoA_def repoB_def)
  have s: "''owner/b'' \<noteq> ''owner/a''"
    by simp
  have w: "snd (getPrsByFile repoB answer0 (days 30) store0) (cacheByRepo repoB)
     = Some \<lparr>entryValue = index0, storedAt = days 30, scopeKey = ''owner/b''\<rparr>"
    by (simp add: getPrsByFile_def get_def persist_def store0_def cacheByRepo_def repoB_def
        producer_answer0)
  from scopes_do_not_interact [of "''owner/b''" "''owner/a''" "producer answer0"
      "\<lparr>maxAge = hours 2, staleWhileRevalidate = days 9\<rparr>" "days 30" store0 repoB repoA answer0]
    d s w
  show ?thesis by (simp add: store0_def cacheByRepo_def repoA_def)
qed

section \<open>The claim about the selector observer\<close>

lemma first_seen_distinct_fresh: "distinct xs \<Longrightarrow> set xs \<inter> set s = {} \<Longrightarrow> first_seen s xs = xs"
  by (induction xs arbitrary: s) simp_all

text \<open>
  C6. Under one registration, the callback is invoked exactly once for every element
  that matches the selector and is in the document at the call or arrives in a later
  batch while the signal is not aborted, and never twice for any element. The elements
  of the document come first, in document order, and the later ones follow in the order
  of their arrival.
\<close>

theorem dispatched_exactly_once:
  "distinct (dispatched (watching matches document events)) \<and>
   dispatched (watching matches document events)
     = first_seen [] (filter matches document)
       @ first_seen (filter matches document) (filter matches (arrivals events)) \<and>
   (distinct document \<longrightarrow>
      take (length (filter matches document)) (dispatched (watching matches document events))
        = filter matches document) \<and>
   (\<forall>e \<in> set (document @ arrivals events). matches e \<longrightarrow>
      count_list (dispatched (watching matches document events)) e = 1)"
proof (intro conjI impI ballI)
  let ?d = "dispatched (watching matches document events)"
  have d: "?d = first_seen [] (filter matches (document @ arrivals events))"
    by (rule dispatched_watching)
  show dist: "distinct ?d"
    unfolding d by (rule distinct_first_seen)
  have "first_seen ([] @ first_seen [] (filter matches document)) (filter matches (arrivals events))
      = first_seen (filter matches document) (filter matches (arrivals events))"
    by (rule first_seen_cong) (simp add: set_first_seen)
  then show parts: "?d = first_seen [] (filter matches document)
       @ first_seen (filter matches document) (filter matches (arrivals events))"
    unfolding d by (simp add: first_seen_append)
  {
    assume "distinct document"
    then have "first_seen [] (filter matches document) = filter matches document"
      by (simp add: first_seen_distinct_fresh)
    then show "take (length (filter matches document)) ?d = filter matches document"
      unfolding parts by simp
  }
  {
    fix e
    assume "e \<in> set (document @ arrivals events)" and "matches e"
    then have "e \<in> set ?d"
      unfolding d by (simp add: set_first_seen)
    with dist show "count_list ?d e = 1"
      by (rule count_list_distinct)
  }
qed

theorem dispatched_exactly_once_witness:
  "dispatched (watching even [1, 2, 3, 4 :: nat] [Added [6, 2, 8], Added [5, 8, 10], Abort, Added [12]])
     = [2, 4, 6, 8, 10] \<and>
   count_list (dispatched (watching even [1, 2, 3, 4 :: nat]
      [Added [6, 2, 8], Added [5, 8, 10], Abort, Added [12]])) 8 = 1"
  using dispatched_exactly_once [of even "[1, 2, 3, 4 :: nat]"
      "[Added [6, 2, 8], Added [5, 8, 10], Abort, Added [12]]"]
  by simp

text \<open>The two registrations of the feature are such watches.\<close>

lemma initSingleFile_dispatched:
  "dispatched (initSingleFile matches document events)
     = first_seen [] (filter (matches More_file_actions) (document @ arrivals events))"
  by (simp add: initSingleFile_def dispatched_watching)

lemma initEditingFile_dispatched:
  "dispatched (initEditingFile matches document events)
     = first_seen [] (filter (matches ''.file'') (document @ arrivals events))"
  by (simp add: initEditingFile_def dispatched_watching)

end
